theory Spec2Isabelle
  imports Main
begin

section \<open>Cursor state and parsers\<close>

text \<open>
  \<^verbatim>\<open>type State = {code: string, index: number}\<close> and
  \<^verbatim>\<open>type Parser<A> = (state: State) => [State, A]\<close>.

  The text is a list of 8-bit code units. The index is a natural number: \<^verbatim>\<open>read\<close> and the
  test driver start at 0 and every combinator only adds to it. An index beyond the end of
  the text is a value of the type, and the definitions below say what the code does there.

  A parser applied to a state has one of three outcomes: it returns a pair of a state and a
  value, it throws a message (\<^verbatim>\<open>expected_string\<close>, \<^verbatim>\<open>expected_type\<close>), or it does not return
  (a recursion that never ends). The first two are the constructors of \<open>reply\<close>, the third
  is \<open>None\<close>.
\<close>

record state =
  code :: string
  index :: nat

datatype 'a reply = Return state 'a | Throw string

type_synonym 'a parser = "state \<Rightarrow> 'a reply option"

text \<open>
  The destructuring assignment \<^verbatim>\<open>var [state, a] = p(state); ...\<close>: the rest of the function
  body runs on the returned pair; a throw or a call that does not return ends the body.
\<close>

definition on_return :: "'a reply option \<Rightarrow> (state \<Rightarrow> 'a \<Rightarrow> 'b reply option) \<Rightarrow> 'b reply option" where
  "on_return r k =
     (case r of
        None \<Rightarrow> None
      | Some (Throw e) \<Rightarrow> Some (Throw e)
      | Some (Return s a) \<Rightarrow> k s a)"

subsection \<open>JavaScript string primitives\<close>

text \<open>
  \<^verbatim>\<open>s.slice(a, b)\<close>: a negative argument counts from the end, both are clamped to the string,
  and the result is empty when the start is not before the end. \<^verbatim>\<open>s.slice(a)\<close> runs to the
  end of the string. \<^verbatim>\<open>s[i]\<close> is \<^verbatim>\<open>undefined\<close> outside the string.
\<close>

definition js_clamp :: "nat \<Rightarrow> int \<Rightarrow> nat" where
  "js_clamp n a = (if a < 0 then nat (max (int n + a) 0) else min (nat a) n)"

definition js_slice :: "string \<Rightarrow> int \<Rightarrow> int \<Rightarrow> string" where
  "js_slice s a b =
     (let from = js_clamp (length s) a; to = js_clamp (length s) b
      in take (to - from) (drop from s))"

definition js_slice_from :: "string \<Rightarrow> int \<Rightarrow> string" where
  "js_slice_from s a = drop (js_clamp (length s) a) s"

definition char_at :: "string \<Rightarrow> nat \<Rightarrow> char option" where
  "char_at s i = (if i < length s then Some (s ! i) else None)"

text \<open>
  The three regular expressions of the source, as tests on \<^verbatim>\<open>s[i]\<close>. \<^verbatim>\<open>RegExp.test\<close> converts
  its argument to a string, so \<^verbatim>\<open>undefined\<close> is tested as the text "undefined": it holds no
  white space and no line feed, and it does hold a letter. \<^verbatim>\<open>/\s/\<close> on 8-bit code units is
  tab, line feed, vertical tab, form feed, carriage return, space and no-break space.
\<close>

definition is_space :: "char \<Rightarrow> bool" where
  "is_space c = (of_char c \<in> {9, 10, 11, 12, 13, 32, 160 :: nat})"

definition is_newline :: "char \<Rightarrow> bool" where
  "is_newline c = (c = CHR 0x0A)"

definition is_name_char :: "char \<Rightarrow> bool" where
  "is_name_char c =
     (let n = (of_char c :: nat)
      in (97 \<le> n \<and> n \<le> 122) \<or> (65 \<le> n \<and> n \<le> 90) \<or> (48 \<le> n \<and> n \<le> 57) \<or> n = 95 \<or> n = 46)"

definition test_space :: "char option \<Rightarrow> bool" where
  "test_space c = (case c of None \<Rightarrow> False | Some x \<Rightarrow> is_space x)"

definition test_newline :: "char option \<Rightarrow> bool" where
  "test_newline c = (case c of None \<Rightarrow> False | Some x \<Rightarrow> is_newline x)"

definition test_name_char :: "char option \<Rightarrow> bool" where
  "test_name_char c = (case c of None \<Rightarrow> True | Some x \<Rightarrow> is_name_char x)"

section \<open>Monad\<close>

text \<open>
  \<^verbatim>\<open>bind(a_parser, b_parser)\<close> and \<^verbatim>\<open>pure(a)\<close>.
\<close>

definition bind :: "'a parser \<Rightarrow> ('a \<Rightarrow> 'b parser) \<Rightarrow> 'b parser" where
  "bind a_parser b_parser = (\<lambda>state.
     on_return (a_parser state) (\<lambda>state a_value. b_parser a_value state))"

definition pure :: "'a \<Rightarrow> 'a parser" where
  "pure a = (\<lambda>state. Some (Return state a))"

definition get_state :: "state parser" where
  "get_state = (\<lambda>state. Some (Return state state))"

section \<open>Skippers\<close>

text \<open>
  The loop of \<^verbatim>\<open>skip_comment\<close>:
  \<^verbatim>\<open>while (state.index < state.code.length && !/\n/.test(state.code[state.index])) state.index += 1\<close>.
\<close>

function skip_comment_loop :: "string \<Rightarrow> nat \<Rightarrow> nat" where
  "skip_comment_loop c i =
     (if i < length c \<and> \<not> test_newline (char_at c i) then skip_comment_loop c (i + 1) else i)"
  by pat_completeness auto
termination
  by (relation "measure (\<lambda>(c, i). length c - i)") auto

declare skip_comment_loop.simps [simp del]

definition skip_comment :: "bool parser" where
  "skip_comment = (\<lambda>state.
     let skips = (js_slice (code state) (int (index state)) (int (index state + 2)) = ''//'')
     in if skips
        then Some (Return (state\<lparr>index := skip_comment_loop (code state) (index state + 2)\<rparr>) skips)
        else Some (Return state skips))"

text \<open>
  The loop of \<^verbatim>\<open>skip_spaces\<close>: \<^verbatim>\<open>while (/\s/.test(state.code[state.index])) state.index += 1\<close>.
  It ends at the end of the text at the latest, where the test is on \<^verbatim>\<open>undefined\<close>.
\<close>

function skip_spaces_loop :: "string \<Rightarrow> nat \<Rightarrow> nat" where
  "skip_spaces_loop c i =
     (if test_space (char_at c i) then skip_spaces_loop c (i + 1) else i)"
  by pat_completeness auto
termination
  by (relation "measure (\<lambda>(c, i). length c - i)")
     (auto simp: test_space_def char_at_def split: if_splits)

declare skip_spaces_loop.simps [simp del]

definition skip_spaces :: "bool parser" where
  "skip_spaces = (\<lambda>state.
     let skips = test_space (char_at (code state) (index state))
     in Some (Return (state\<lparr>index := skip_spaces_loop (code state) (index state)\<rparr>) skips))"

text \<open>
  What the two skippers do to the state: the text is kept, and a skipper that reports
  \<^verbatim>\<open>false\<close> returns the state it was given.
\<close>

lemma on_return_cong [fundef_cong]:
  "r = r' \<Longrightarrow> (\<And>s a. r' = Some (Return s a) \<Longrightarrow> k s a = k' s a) \<Longrightarrow> on_return r k = on_return r' k'"
  by (auto simp: on_return_def split: option.splits reply.splits)

lemma skip_comment_loop_ge: "i \<le> skip_comment_loop c i"
proof (induction c i rule: skip_comment_loop.induct)
  case (1 c i)
  show ?case
  proof (cases "i < length c \<and> \<not> test_newline (char_at c i)")
    case True
    with "1" have "i + 1 \<le> skip_comment_loop c (i + 1)" by blast
    with True show ?thesis by (subst skip_comment_loop.simps) simp
  next
    case False
    then show ?thesis by (subst skip_comment_loop.simps) auto
  qed
qed

lemma skip_comment_loop_le: "i \<le> length c \<Longrightarrow> skip_comment_loop c i \<le> length c"
proof (induction c i rule: skip_comment_loop.induct)
  case (1 c i)
  show ?case
  proof (cases "i < length c \<and> \<not> test_newline (char_at c i)")
    case True
    with "1" have "skip_comment_loop c (i + 1) \<le> length c" by simp
    with True show ?thesis by (subst skip_comment_loop.simps) simp
  next
    case False
    with "1.prems" show ?thesis by (subst skip_comment_loop.simps) auto
  qed
qed

lemma skip_spaces_loop_ge: "i \<le> skip_spaces_loop c i"
proof (induction c i rule: skip_spaces_loop.induct)
  case (1 c i)
  show ?case
  proof (cases "test_space (char_at c i)")
    case True
    with "1" have "i + 1 \<le> skip_spaces_loop c (i + 1)" by blast
    with True show ?thesis by (subst skip_spaces_loop.simps) simp
  next
    case False
    then show ?thesis by (subst skip_spaces_loop.simps) simp
  qed
qed

lemma skip_spaces_loop_le: "i \<le> length c \<Longrightarrow> skip_spaces_loop c i \<le> length c"
proof (induction c i rule: skip_spaces_loop.induct)
  case (1 c i)
  show ?case
  proof (cases "test_space (char_at c i)")
    case True
    then have "i < length c" by (simp add: test_space_def char_at_def split: if_splits)
    with "1" True have "skip_spaces_loop c (i + 1) \<le> length c" by simp
    with True show ?thesis by (subst skip_spaces_loop.simps) simp
  next
    case False
    with "1.prems" show ?thesis by (subst skip_spaces_loop.simps) simp
  qed
qed

lemma js_slice_nat: "js_slice s (int a) (int b) = take (min b (length s) - min a (length s)) (drop (min a (length s)) s)"
  by (simp add: js_slice_def js_clamp_def Let_def)

lemma js_slice_two:
  assumes "js_slice s (int i) (int (i + 2)) = [x, y]"
  shows "i + 2 \<le> length s"
proof -
  have "length (js_slice s (int i) (int (i + 2))) = 2" using assms by simp
  then show ?thesis unfolding js_slice_nat by (simp split: if_splits add: min_def)
qed

lemma skip_comment_result:
  assumes "skip_comment s = Some (Return s1 comment)"
  shows "code s1 = code s"
    and "\<not> comment \<Longrightarrow> s1 = s"
    and "comment \<Longrightarrow> index s < index s1 \<and> index s1 \<le> length (code s)"
proof -
  show "code s1 = code s"
    using assms by (auto simp: skip_comment_def Let_def split: if_splits)
  show "\<not> comment \<Longrightarrow> s1 = s"
    using assms by (auto simp: skip_comment_def Let_def split: if_splits)
  show "index s < index s1 \<and> index s1 \<le> length (code s)" if "comment"
  proof -
    from assms that have sl: "js_slice (code s) (int (index s)) (int (index s + 2)) = ''//''"
      and s1: "s1 = s\<lparr>index := skip_comment_loop (code s) (index s + 2)\<rparr>"
      by (auto simp: skip_comment_def Let_def split: if_splits)
    from sl have "index s + 2 \<le> length (code s)" by (rule js_slice_two)
    then have "skip_comment_loop (code s) (index s + 2) \<le> length (code s)"
      by (rule skip_comment_loop_le)
    moreover have "index s + 2 \<le> skip_comment_loop (code s) (index s + 2)"
      by (rule skip_comment_loop_ge)
    ultimately show ?thesis using s1 by simp
  qed
qed

lemma skip_spaces_result:
  assumes "skip_spaces s = Some (Return s1 spaces)"
  shows "code s1 = code s"
    and "\<not> spaces \<Longrightarrow> s1 = s"
    and "spaces \<Longrightarrow> index s < index s1 \<and> index s1 \<le> length (code s)"
    and "index s \<le> index s1"
proof -
  from assms have s1: "s1 = s\<lparr>index := skip_spaces_loop (code s) (index s)\<rparr>"
    and sp: "spaces = test_space (char_at (code s) (index s))"
    by (auto simp: skip_spaces_def Let_def)
  show "code s1 = code s" using s1 by simp
  show "index s \<le> index s1" using s1 skip_spaces_loop_ge [of "index s" "code s"] by simp
  show "s1 = s" if "\<not> spaces"
  proof -
    from that sp have "skip_spaces_loop (code s) (index s) = index s"
      by (subst skip_spaces_loop.simps) simp
    with s1 show ?thesis by simp
  qed
  show "index s < index s1 \<and> index s1 \<le> length (code s)" if "spaces"
  proof -
    from that sp have t: "test_space (char_at (code s) (index s))" by simp
    then have lt: "index s < length (code s)"
      by (simp add: test_space_def char_at_def split: if_splits)
    from t have "skip_spaces_loop (code s) (index s) = skip_spaces_loop (code s) (index s + 1)"
      by (subst skip_spaces_loop.simps) simp
    moreover have "index s + 1 \<le> skip_spaces_loop (code s) (index s + 1)"
      by (rule skip_spaces_loop_ge)
    moreover from lt have "skip_spaces_loop (code s) (index s + 1) \<le> length (code s)"
      by (intro skip_spaces_loop_le) simp
    ultimately show ?thesis using s1 by simp
  qed
qed

text \<open>
  \<^verbatim>\<open>skip\<close> calls itself while a round skipped something. Each such round moves the index
  forward and not beyond the end of the text, so the recursion ends.
\<close>

function skip :: "bool parser" where
  "skip state =
     on_return (skip_comment state) (\<lambda>state comment.
     on_return (skip_spaces state) (\<lambda>state spaces.
       if comment \<or> spaces
       then on_return (skip state) (\<lambda>state skipped. Some (Return state True))
       else Some (Return state False)))"
  by pat_completeness auto
termination
proof (relation "measure (\<lambda>s. length (code s) - index s)")
  show "wf (measure (\<lambda>s. length (code s) - index s))" by simp
next
  fix state s1 comment s2 spaces
  assume c: "skip_comment state = Some (Return s1 comment)"
    and sp: "skip_spaces s1 = Some (Return s2 spaces)"
    and some: "comment \<or> spaces"
  have le: "index state \<le> index s1" "index s1 \<le> index s2"
    using skip_comment_result [OF c] skip_spaces_result [OF sp] by (cases comment; force)+
  have cd: "code s2 = code state"
    using skip_comment_result(1) [OF c] skip_spaces_result(1) [OF sp] by simp
  from some have "index state < index s2 \<and> index s2 \<le> length (code state)"
  proof
    assume comment
    then have a: "index state < index s1 \<and> index s1 \<le> length (code state)"
      using skip_comment_result(3) [OF c] by simp
    show ?thesis
    proof (cases spaces)
      case True
      then show ?thesis using skip_spaces_result(3) [OF sp] skip_comment_result(1) [OF c] a by simp
    next
      case False
      then show ?thesis using skip_spaces_result(2) [OF sp] a by simp
    qed
  next
    assume spaces
    then show ?thesis using skip_spaces_result(3) [OF sp] skip_comment_result(1) [OF c] le by simp
  qed
  then have "length (code state) - index s2 < length (code state) - index state" by arith
  with cd show "(s2, state) \<in> measure (\<lambda>s. length (code s) - index s)" by simp
qed

declare skip.simps [simp del]

section \<open>Strings\<close>

text \<open>
  \<^verbatim>\<open>match_here(str)\<close> compares the slice of the text at the cursor with \<^verbatim>\<open>str\<close>.
\<close>

definition match_here :: "string \<Rightarrow> bool parser" where
  "match_here str = (\<lambda>state.
     if js_slice (code state) (int (index state)) (int (index state + length str)) = str
     then Some (Return (state\<lparr>index := index state + length str\<rparr>) True)
     else Some (Return state False))"

text \<open>
  A \<^verbatim>\<open>RegExp\<close> is taken as what \<^verbatim>\<open>String.prototype.match\<close> computes with it: for a string,
  nothing, or the index of the first match and the matched text \<^verbatim>\<open>matched[0]\<close>.
\<close>

type_synonym regexp = "string \<Rightarrow> (nat \<times> string) option"

definition match_here_regex :: "regexp \<Rightarrow> bool parser" where
  "match_here_regex regex = (\<lambda>state.
     case regex (js_slice_from (code state) (int (index state))) of
       Some (i, m) \<Rightarrow>
         if i = 0 then Some (Return (state\<lparr>index := index state + length m\<rparr>) True)
         else Some (Return state False)
     | None \<Rightarrow> Some (Return state False))"

datatype matcher = Str string | RegExp regexp

definition match :: "matcher \<Rightarrow> bool parser" where
  "match m = (\<lambda>state.
     on_return (skip state) (\<lambda>state skipped.
       case m of
         Str str \<Rightarrow> match_here str state
       | RegExp regex \<Rightarrow> match_here_regex regex state))"

section \<open>Errors\<close>

text \<open>
  The markers and colours of \<^verbatim>\<open>highlight\<close>: the two guillemets (one code unit each) and the
  escape sequences for underlined red and for reset.
\<close>

definition newline :: char where
  "newline = CHR 0x0A"

definition open_mark :: char where
  "open_mark = CHR 0xAB"

definition close_mark :: char where
  "close_mark = CHR 0xBB"

definition open_color :: string where
  "open_color = CHR 0x1B # ''[4m'' @ CHR 0x1B # ''[31m''"

definition close_color :: string where
  "close_color = CHR 0x1B # ''[0m''"

text \<open>
  The two counting loops: \<^verbatim>\<open>for (var i = 0; i < n; ++i) if (code[i] === "\n") ++line\<close>.
\<close>

primrec count_lines :: "string \<Rightarrow> nat \<Rightarrow> nat" where
  "count_lines c 0 = 0"
| "count_lines c (Suc i) = count_lines c i + (if char_at c i = Some newline then 1 else 0)"

text \<open>
  \<^verbatim>\<open>s.split("\n")\<close>: the pieces between line feeds, at least one piece.
  \<^verbatim>\<open>s.indexOf(m)\<close> for a marker of one code unit: the first position, or -1.
  The decimal text of a number, as string concatenation writes it.
\<close>

fun split_lines :: "string \<Rightarrow> string list" where
  "split_lines [] = [[]]"
| "split_lines (c # cs) =
     (if c = newline then [] # split_lines cs
      else (case split_lines cs of
              [] \<Rightarrow> [[c]]
            | l # ls \<Rightarrow> (c # l) # ls))"

fun index_of :: "string \<Rightarrow> char \<Rightarrow> int" where
  "index_of [] m = - 1"
| "index_of (c # cs) m =
     (if c = m then 0
      else (let i = index_of cs m in if i < 0 then - 1 else i + 1))"

definition digit_char :: "nat \<Rightarrow> char" where
  "digit_char d = char_of (48 + d)"

function show_nat :: "nat \<Rightarrow> string" where
  "show_nat n = (if n < 10 then [digit_char n] else show_nat (n div 10) @ [digit_char (n mod 10)])"
  by pat_completeness auto
termination
  by (relation "measure (\<lambda>n. n)") auto

declare show_nat.simps [simp del]

text \<open>
  The body of the last loop of \<^verbatim>\<open>highlight\<close> for the line \<^verbatim>\<open>lines[i]\<close> with number
  \<^verbatim>\<open>numb = block_from_line + i\<close>: the line with its line feed, coloured according to where
  the line lies in the span, after the number in a field of four characters and a bar.
\<close>

definition color_line :: "nat \<Rightarrow> nat \<Rightarrow> nat \<Rightarrow> string \<Rightarrow> string" where
  "color_line from_line to_line numb line =
     (if numb = from_line \<and> numb = to_line then
        js_slice line 0 (index_of line open_mark) @ open_color
          @ js_slice line (index_of line open_mark) (index_of line close_mark + 1) @ close_color
          @ js_slice_from line (index_of line close_mark + 1)
      else if numb = from_line then
        js_slice line 0 (index_of line open_mark) @ open_color
          @ js_slice_from line (index_of line open_mark) @ close_color
      else if from_line < numb \<and> numb < to_line then
        open_color @ line @ close_color
      else if numb = to_line then
        open_color @ js_slice line 0 (index_of line close_mark + 1) @ close_color
          @ js_slice_from line (index_of line close_mark + 1)
      else line)"

definition numbered_line :: "nat \<Rightarrow> nat \<Rightarrow> nat \<Rightarrow> string \<Rightarrow> string" where
  "numbered_line from_line to_line numb l =
     js_slice_from (''    '' @ show_nat numb) (- 4) @ '' | ''
       @ color_line from_line to_line numb (l @ [newline])"

text \<open>
  The loop itself, over the retained lines, with the text built so far.
\<close>

fun highlight_loop :: "nat \<Rightarrow> nat \<Rightarrow> nat \<Rightarrow> string list \<Rightarrow> string \<Rightarrow> string" where
  "highlight_loop from_line to_line numb [] text = text"
| "highlight_loop from_line to_line numb (l # ls) text =
     highlight_loop from_line to_line (numb + 1) ls (text @ numbered_line from_line to_line numb l)"

definition highlight :: "nat \<Rightarrow> nat \<Rightarrow> string \<Rightarrow> string" where
  "highlight from_index to_index c =
     (let from_line = count_lines c from_index;
          to_line = count_lines c to_index;
          colored = js_slice c 0 (int from_index) @ [open_mark]
            @ js_slice c (int from_index) (int to_index) @ [close_mark]
            @ js_slice_from c (int to_index);
          lines = split_lines colored;
          block_from_line = nat (max (int from_line - 3) 0);
          block_to_line = min (to_line + 3) (length lines);
          lines = take (block_to_line - block_from_line) (drop block_from_line lines)
      in highlight_loop from_line to_line block_from_line lines [])"

definition expected_string :: "string \<Rightarrow> 'a parser" where
  "expected_string str = (\<lambda>state.
     Some (Throw (''Expected '' @ [CHR 0x27] @ str @ [CHR 0x27] @ '':'' @ [newline]
       @ highlight (index state) (index state + length str) (code state))))"

definition expected_type :: "string \<Rightarrow> 'a parser" where
  "expected_type name = (\<lambda>state.
     Some (Throw (''Expected '' @ name @ '':'' @ [newline]
       @ highlight (index state) (index state + 1) (code state))))"

section \<open>Consuming\<close>

definition consume :: "string \<Rightarrow> unit parser" where
  "consume str = (\<lambda>state.
     on_return (match (Str str) state) (\<lambda>state matched.
       if matched then Some (Return state ())
       else expected_string str state))"

definition get_char :: "char option parser" where
  "get_char = (\<lambda>state.
     on_return (skip state) (\<lambda>state skipped.
       if index state < length (code state)
       then Some (Return (state\<lparr>index := index state + 1\<rparr>) (char_at (code state) (index state)))
       else Some (Return state None)))"

definition done' :: "bool parser" where
  "done' = (\<lambda>state.
     on_return (skip state) (\<lambda>state skipped.
       Some (Return state (index state = length (code state)))))"

section \<open>Combinators\<close>

text \<open>
  \<^verbatim>\<open>dry(parser)\<close> keeps the result of the parser and returns the state it was given.
\<close>

definition dry :: "'a parser \<Rightarrow> 'a parser" where
  "dry parser = (\<lambda>state.
     on_return (parser state) (\<lambda>_ result. Some (Return state result)))"

text \<open>
  \<^verbatim>\<open>guard(head, body)\<close>: the result type is \<^verbatim>\<open>A | null\<close>, here \<open>'a option\<close> with \<open>None\<close>
  for \<^verbatim>\<open>null\<close>.
\<close>

definition guard :: "bool parser \<Rightarrow> 'a parser \<Rightarrow> 'a option parser" where
  "guard head body = (\<lambda>state.
     on_return (skip state) (\<lambda>state skipped.
     on_return (dry head state) (\<lambda>state matched.
       if matched
       then on_return (body state) (\<lambda>state a. Some (Return state (Some a)))
       else Some (Return state None))))"

text \<open>
  \<^verbatim>\<open>grammar(name, choices)\<close>. The loop applies each choice to the state the one before it
  returned. Its test \<^verbatim>\<open>if (got)\<close> is the truthiness of the value: \<^verbatim>\<open>null\<close> is falsy, and so
  are the empty string, zero and \<^verbatim>\<open>false\<close>. What is truthy among the values of the type
  \<^verbatim>\<open>A\<close> is the parameter \<open>truthy\<close>.
\<close>

fun grammar_loop :: "('a \<Rightarrow> bool) \<Rightarrow> string \<Rightarrow> 'a option parser list \<Rightarrow> 'a parser" where
  "grammar_loop truthy name [] state = expected_type name state"
| "grammar_loop truthy name (choice # choices) state =
     on_return (choice state) (\<lambda>state got.
       case got of
         None \<Rightarrow> grammar_loop truthy name choices state
       | Some a \<Rightarrow>
           if truthy a then Some (Return state a)
           else grammar_loop truthy name choices state)"

definition grammar :: "('a \<Rightarrow> bool) \<Rightarrow> string \<Rightarrow> 'a option parser list \<Rightarrow> 'a parser" where
  "grammar truthy name choices = (\<lambda>state. grammar_loop truthy name choices state)"

definition truthy_string :: "string \<Rightarrow> bool" where
  "truthy_string s = (s \<noteq> [])"

text \<open>
  \<^verbatim>\<open>until(delim, parser)\<close> calls itself after each element, with nothing that bounds the number
  of calls: it is a partial function, and \<open>None\<close> is the call that does not return.
\<close>

lemma on_return_mono [partial_function_mono]:
  assumes "mono_option B" and "\<And>s a. mono_option (\<lambda>f. C s a f)"
  shows "mono_option (\<lambda>f. on_return (B f) (\<lambda>s a. C s a f))"
proof -
  have eq: "(\<lambda>f. on_return (B f) (\<lambda>s a. C s a f)) =
    (\<lambda>f. Option.bind (B f) (\<lambda>r. case r of Return s a \<Rightarrow> C s a f | Throw e \<Rightarrow> Some (Throw e)))"
    by (auto simp: on_return_def fun_eq_iff split: option.splits reply.splits)
  show ?thesis
    unfolding eq
  proof (rule bind_mono [OF assms(1)])
    fix r
    show "mono_option (\<lambda>f. case r of Return s a \<Rightarrow> C s a f | Throw e \<Rightarrow> Some (Throw e))"
      by (cases r) (simp_all add: assms(2) option.const_mono)
  qed
qed

partial_function (option) until :: "bool parser \<Rightarrow> 'a parser \<Rightarrow> state \<Rightarrow> 'a list reply option" where
  "until delim parser state =
     on_return (delim state) (\<lambda>state delimited.
       if delimited then Some (Return state [])
       else
         on_return (parser state) (\<lambda>state a.
         on_return (until delim parser state) (\<lambda>state b.
           Some (Return state ([a] @ b)))))"

definition list :: "bool parser \<Rightarrow> bool parser \<Rightarrow> bool parser \<Rightarrow> 'a parser \<Rightarrow> ('a list \<Rightarrow> 'b) \<Rightarrow> 'b parser" where
  "list open_p sep close_p elem make' = (\<lambda>state.
     on_return (open_p state) (\<lambda>state skp.
     on_return (until close_p (\<lambda>state.
         on_return (elem state) (\<lambda>state val.
         on_return (sep state) (\<lambda>state skp.
           Some (Return state val)))) state) (\<lambda>state arr.
       Some (Return state (make' arr)))))"

section \<open>Name\<close>

text \<open>
  The loop of \<^verbatim>\<open>name_here\<close>:
  \<^verbatim>\<open>while (state.index < state.code.length && /[a-zA-Z0-9_.]/.test(state.code[state.index]))\<close>
  adds the character to the name and moves on.
\<close>

function name_here_loop :: "string \<Rightarrow> nat \<Rightarrow> string \<Rightarrow> nat \<times> string" where
  "name_here_loop c i name =
     (if i < length c \<and> test_name_char (char_at c i)
      then name_here_loop c (i + 1) (name @ [c ! i])
      else (i, name))"
  by pat_completeness auto
termination
  by (relation "measure (\<lambda>(c, i, name). length c - i)") auto

declare name_here_loop.simps [simp del]

definition name_here :: "string parser" where
  "name_here = (\<lambda>state.
     case name_here_loop (code state) (index state) [] of
       (i, name) \<Rightarrow> Some (Return (state\<lparr>index := i\<rparr>) name))"

definition name :: "string parser" where
  "name = (\<lambda>state.
     on_return (skip state) (\<lambda>state skipped. name_here state))"

definition name1 :: "string parser" where
  "name1 = (\<lambda>state.
     on_return (name state) (\<lambda>state name1.
       if length name1 > 0 then Some (Return state name1)
       else expected_type ''name'' state))"

definition caller :: "string \<Rightarrow> bool parser" where
  "caller open_s = (\<lambda>state.
     on_return (name_here state) (\<lambda>state nam.
     on_return (match_here open_s state) (\<lambda>state got.
       Some (Return state (length nam > 0 \<and> got)))))"

definition call :: "bool parser \<Rightarrow> bool parser \<Rightarrow> bool parser \<Rightarrow> 'a parser \<Rightarrow> (string \<Rightarrow> 'a list \<Rightarrow> 'b) \<Rightarrow> 'b parser" where
  "call open_p sep close_p elem make' = (\<lambda>state.
     on_return (name1 state) (\<lambda>state nam.
     on_return (open_p state) (\<lambda>state skp.
     on_return (until close_p (\<lambda>state.
         on_return (elem state) (\<lambda>state val.
         on_return (sep state) (\<lambda>state skp.
           Some (Return state val)))) state) (\<lambda>state arr.
       Some (Return state (make' nam arr))))))"

section \<open>The binary tree grammar\<close>

text \<open>
  \<^verbatim>\<open>type StrBinTree = [StrBinTree, StrBinTree] | string\<close>. An array is truthy, a string is
  truthy when it is not empty.
\<close>

datatype StrBinTree = Leaf string | Node StrBinTree StrBinTree

fun truthy_StrBinTree :: "StrBinTree \<Rightarrow> bool" where
  "truthy_StrBinTree (Leaf s) = truthy_string s"
| "truthy_StrBinTree (Node l r) = True"

text \<open>
  \<^verbatim>\<open>sbt\<close> builds its two alternatives and applies \<^verbatim>\<open>grammar\<close> to them. Each alternative is
  written with \<^verbatim>\<open>Parser(function*() { ... yield* run(p) ... })\<close>, which runs the yielded
  parsers one after the other on the threaded state and hands each value back to the
  generator: the chain of \<^verbatim>\<open>bind\<close> below. (The generator is made once per call of
  \<^verbatim>\<open>Parser\<close>; \<^verbatim>\<open>sbt\<close> makes a new one each time it is applied and \<^verbatim>\<open>guard\<close> applies it at most
  once.) \<^verbatim>\<open>sbt\<close> calls itself inside the alternative for a node; the first argument bounds the
  depth of these calls, and a call with no fuel left does not return.
\<close>

fun sbt :: "nat \<Rightarrow> StrBinTree parser" where
  "sbt 0 = (\<lambda>state. None)"
| "sbt (Suc fuel) = (\<lambda>state.
     let sbt_node = guard (match (Str ''(''))
           (bind (consume ''('') (\<lambda>_.
            bind (sbt fuel) (\<lambda>lft.
            bind (sbt fuel) (\<lambda>rgt.
            bind (consume '')'') (\<lambda>_.
            pure (Node lft rgt))))));
         sbt_name = guard (match (Str ''''))
           (bind name (\<lambda>x. pure (Leaf x)))
     in grammar truthy_StrBinTree ''StrBinTree'' [sbt_node, sbt_name] state)"

declare until.simps [code]

text \<open>
  The runs of \<^verbatim>\<open>until\<close> that return, told step by step, for the statement about the number of
  element applications: \<open>until_steps delim parser n s as s'\<close> holds when, from the state \<open>s\<close>,
  the delimiter reports \<^verbatim>\<open>false\<close> and the element parser returns \<open>n\<close> times in turn, the
  values being \<open>as\<close> in this order, and the delimiter then reports \<^verbatim>\<open>true\<close> and leaves the
  state \<open>s'\<close>.
\<close>

inductive until_steps :: "bool parser \<Rightarrow> 'a parser \<Rightarrow> nat \<Rightarrow> state \<Rightarrow> 'a list \<Rightarrow> state \<Rightarrow> bool"
  for delim :: "bool parser" and parser :: "'a parser" where
  stop: "delim s = Some (Return s' True) \<Longrightarrow> until_steps delim parser 0 s [] s'"
| step: "delim s = Some (Return s1 False) \<Longrightarrow> parser s1 = Some (Return s2 a) \<Longrightarrow>
         until_steps delim parser n s2 as s' \<Longrightarrow>
         until_steps delim parser (Suc n) s (a # as) s'"

section \<open>Properties\<close>

subsection \<open>Auxiliary facts\<close>

lemma on_return_simps [simp]:
  "on_return None k = None"
  "on_return (Some (Throw e)) k = Some (Throw e)"
  "on_return (Some (Return s a)) k = k s a"
  by (simp_all add: on_return_def)

lemma skip_comment_total: "\<exists>s1 comment. skip_comment s = Some (Return s1 comment)"
  by (auto simp: skip_comment_def Let_def)

lemma skip_spaces_total: "\<exists>s1 spaces. skip_spaces s = Some (Return s1 spaces)"
  by (simp add: skip_spaces_def Let_def)

lemma js_slice_at: "js_slice c (int i) (int (i + n)) = take n (drop i c)"
proof -
  have "js_slice c (int i) (int (i + n)) =
      take (min (i + n) (length c) - min i (length c)) (drop (min i (length c)) c)"
    by (rule js_slice_nat)
  also have "\<dots> = take n (drop i c)"
  proof (cases "i \<le> length c")
    case True
    then have "min i (length c) = i" by simp
    moreover have "take (min (i + n) (length c) - i) (drop i c) = take n (drop i c)"
      using True by (simp add: min_def)
    ultimately show ?thesis by simp
  next
    case False
    then show ?thesis by simp
  qed
  finally show ?thesis .
qed

text \<open>
  \<^verbatim>\<open>skip\<close> always returns, keeps the text, and the state it returns is one on which
  neither skipper finds anything.
\<close>

lemma skip_fixed_point:
  "\<exists>s1 skipped. skip s = Some (Return s1 skipped) \<and> code s1 = code s \<and> skip s1 = Some (Return s1 False)"
proof (induction s rule: skip.induct)
  case (1 state)
  obtain s1 comment where c: "skip_comment state = Some (Return s1 comment)"
    using skip_comment_total by blast
  obtain s2 spaces where sp: "skip_spaces s1 = Some (Return s2 spaces)"
    using skip_spaces_total by blast
  have cd: "code s2 = code state"
    using skip_comment_result(1) [OF c] skip_spaces_result(1) [OF sp] by simp
  show ?case
  proof (cases "comment \<or> spaces")
    case True
    from "1" [OF c sp True] obtain s3 skipped
      where r: "skip s2 = Some (Return s3 skipped)" and cd3: "code s3 = code s2"
        and f: "skip s3 = Some (Return s3 False)"
      by blast
    have "skip state = Some (Return s3 True)"
      by (subst skip.simps) (simp add: c sp True r)
    with f cd cd3 show ?thesis by auto
  next
    case False
    then have "s1 = state" "s2 = s1"
      using skip_comment_result(2) [OF c] skip_spaces_result(2) [OF sp] by simp_all
    with c sp False have "skip state = Some (Return state False)"
      by (subst skip.simps) simp
    then show ?thesis by auto
  qed
qed

subsection \<open>The monad laws\<close>

lemma bind_left_identity: "bind (pure a) f = f a"
  by (simp add: bind_def pure_def)

lemma bind_right_identity: "bind p pure = p"
proof
  fix s
  show "bind p pure s = p s"
  proof (cases "p s")
    case None
    then show ?thesis by (simp add: bind_def)
  next
    case (Some r)
    then show ?thesis by (cases r) (simp_all add: bind_def pure_def)
  qed
qed

lemma bind_associative: "bind (bind p f) g = bind p (\<lambda>x. bind (f x) g)"
proof
  fix s
  show "bind (bind p f) g s = bind p (\<lambda>x. bind (f x) g) s"
  proof (cases "p s")
    case None
    then show ?thesis by (simp add: bind_def)
  next
    case (Some r)
    then show ?thesis by (cases r) (simp_all add: bind_def)
  qed
qed

text \<open>
  C5. \<^verbatim>\<open>bind\<close> and \<^verbatim>\<open>pure\<close> satisfy the three monad laws, as equalities of functions on states:
  left identity, right identity and associativity. The equalities cover all three outcomes of
  a parser: a returned pair, a thrown message and a call that does not return.
\<close>

theorem monad_laws:
  "bind (pure a) f = f a \<and> bind p pure = p \<and> bind (bind p f) g = bind p (\<lambda>x. bind (f x) g)"
  by (simp only: bind_left_identity bind_right_identity bind_associative)

subsection \<open>Lookahead\<close>

text \<open>
  C3. \<^verbatim>\<open>dry(p)\<close> applied to a state \<open>s\<close> returns exactly when \<open>p\<close> returns on \<open>s\<close>, and the pair
  it returns is \<open>s\<close> itself with the value of \<open>p\<close>: whatever state \<open>p\<close> moved to is dropped.
\<close>

theorem dry_returns_given_state:
  "dry p s = Some (Return t v) \<longleftrightarrow> t = s \<and> (\<exists>s'. p s = Some (Return s' v))"
proof (cases "p s")
  case None
  then show ?thesis by (simp add: dry_def)
next
  case (Some r)
  then show ?thesis by (cases r) (auto simp: dry_def)
qed

theorem dry_returns_given_state_witness:
  "match (Str ''ab'') \<lparr>code = '' abc'', index = 0\<rparr> = Some (Return \<lparr>code = '' abc'', index = 3\<rparr> True)
   \<and> dry (match (Str ''ab'')) \<lparr>code = '' abc'', index = 0\<rparr> = Some (Return \<lparr>code = '' abc'', index = 0\<rparr> True)"
proof -
  have m: "match (Str ''ab'') \<lparr>code = '' abc'', index = 0\<rparr> = Some (Return \<lparr>code = '' abc'', index = 3\<rparr> True)"
    by code_simp
  then show ?thesis
    using dry_returns_given_state [of "match (Str ''ab'')" "\<lparr>code = '' abc'', index = 0\<rparr>"
        "\<lparr>code = '' abc'', index = 0\<rparr>" True]
    by simp
qed

subsection \<open>Skipping and matching\<close>

text \<open>
  C4. \<^verbatim>\<open>skip\<close> is idempotent: it returns on every state, and applied to the state it returned
  it returns that state again and reports that it skipped nothing.
\<close>

theorem skip_idempotent:
  "\<exists>s1 skipped. skip s = Some (Return s1 skipped) \<and> skip s1 = Some (Return s1 False)"
  using skip_fixed_point [of s] by blast

theorem skip_idempotent_witness:
  "skip \<lparr>code = ''  // c\<newline> x'', index = 0\<rparr> = Some (Return \<lparr>code = ''  // c\<newline> x'', index = 8\<rparr> True)
   \<and> skip \<lparr>code = ''  // c\<newline> x'', index = 8\<rparr> = Some (Return \<lparr>code = ''  // c\<newline> x'', index = 8\<rparr> False)"
proof -
  have sk1: "skip \<lparr>code = ''  // c\<newline> x'', index = 0\<rparr> = Some (Return \<lparr>code = ''  // c\<newline> x'', index = 8\<rparr> True)"
    by code_simp
  show ?thesis
    using skip_idempotent [of "\<lparr>code = ''  // c\<newline> x'', index = 0\<rparr>"]
    by (auto simp: sk1)
qed

text \<open>
  C2. \<^verbatim>\<open>match(L)\<close> for a literal \<open>L\<close> first skips: with \<open>s1\<close> the state \<^verbatim>\<open>skip\<close> returns (same text),
  if the \<open>length L\<close> characters of the text at the index of \<open>s1\<close> are \<open>L\<close>, it returns
  \<^verbatim>\<open>true\<close> and \<open>s1\<close> moved forward by \<open>length L\<close>; otherwise it returns \<^verbatim>\<open>false\<close> and \<open>s1\<close>, so
  the index has moved by the skipped trivia only.
\<close>

theorem match_literal:
  "\<exists>s1 skipped. skip s = Some (Return s1 skipped) \<and> code s1 = code s \<and>
     match (Str L) s =
       (if take (length L) (drop (index s1) (code s1)) = L
        then Some (Return (s1\<lparr>index := index s1 + length L\<rparr>) True)
        else Some (Return s1 False))"
proof -
  obtain s1 skipped where sk: "skip s = Some (Return s1 skipped)" and cd: "code s1 = code s"
    using skip_fixed_point [of s] by blast
  have "match (Str L) s = match_here L s1"
    by (simp add: match_def sk)
  also have "\<dots> = (if take (length L) (drop (index s1) (code s1)) = L
        then Some (Return (s1\<lparr>index := index s1 + length L\<rparr>) True)
        else Some (Return s1 False))"
    by (simp only: match_here_def js_slice_at)
  finally show ?thesis using sk cd by blast
qed

theorem match_literal_witness:
  "match (Str ''ab'') \<lparr>code = '' abc'', index = 0\<rparr> = Some (Return \<lparr>code = '' abc'', index = 3\<rparr> True)
   \<and> match (Str ''ab'') \<lparr>code = '' xbc'', index = 0\<rparr> = Some (Return \<lparr>code = '' xbc'', index = 1\<rparr> False)"
proof -
  have sk1: "skip \<lparr>code = '' abc'', index = 0\<rparr> = Some (Return \<lparr>code = '' abc'', index = 1\<rparr> True)"
    by code_simp
  have sk2: "skip \<lparr>code = '' xbc'', index = 0\<rparr> = Some (Return \<lparr>code = '' xbc'', index = 1\<rparr> True)"
    by code_simp
  show ?thesis
    using match_literal [of "\<lparr>code = '' abc'', index = 0\<rparr>" "''ab''"]
      match_literal [of "\<lparr>code = '' xbc'', index = 0\<rparr>" "''ab''"]
    by (auto simp: sk1 sk2)
qed

subsection \<open>The identifier probe\<close>

lemma name_here_loop_eq:
  "name_here_loop c i nm =
     (i + length (takeWhile is_name_char (drop i c)), nm @ takeWhile is_name_char (drop i c))"
proof (induction c i nm rule: name_here_loop.induct)
  case (1 c i name)
  show ?case
  proof (cases "i < length c \<and> test_name_char (char_at c i)")
    case True
    then have lt: "i < length c" and nc: "is_name_char (c ! i)"
      by (auto simp: test_name_char_def char_at_def)
    from lt have dr: "drop i c = c ! i # drop (i + 1) c"
      by (simp add: Cons_nth_drop_Suc)
    have "name_here_loop c i name = name_here_loop c (i + 1) (name @ [c ! i])"
      using True by (subst name_here_loop.simps) simp
    also have "\<dots> = (i + 1 + length (takeWhile is_name_char (drop (i + 1) c)),
        (name @ [c ! i]) @ takeWhile is_name_char (drop (i + 1) c))"
      using "1" True by blast
    also have "\<dots> = (i + length (takeWhile is_name_char (drop i c)), name @ takeWhile is_name_char (drop i c))"
      using nc by (simp add: dr)
    finally show ?thesis .
  next
    case False
    then have "takeWhile is_name_char (drop i c) = []"
    proof (cases "i < length c")
      case True
      with False have "\<not> is_name_char (c ! i)" by (auto simp: test_name_char_def char_at_def)
      moreover from True have "drop i c = c ! i # drop (i + 1) c" by (simp add: Cons_nth_drop_Suc)
      ultimately show ?thesis by simp
    next
      case False
      then show ?thesis by simp
    qed
    moreover have "name_here_loop c i name = (i, name)"
      using False by (subst name_here_loop.simps) auto
    ultimately show ?thesis by simp
  qed
qed

lemma name_here_eq:
  "name_here s = Some (Return (s\<lparr>index := index s + length (takeWhile is_name_char (drop (index s) (code s)))\<rparr>)
     (takeWhile is_name_char (drop (index s) (code s))))"
  by (simp add: name_here_def name_here_loop_eq)

lemma match_here_eq:
  "match_here str s =
     (if take (length str) (drop (index s) (code s)) = str
      then Some (Return (s\<lparr>index := index s + length str\<rparr>) True)
      else Some (Return s False))"
  by (simp only: match_here_def js_slice_at)

lemma caller_eq:
  "caller open_s s =
     (let nam = takeWhile is_name_char (drop (index s) (code s));
          after = index s + length nam;
          got = (take (length open_s) (drop after (code s)) = open_s)
      in Some (Return (s\<lparr>index := (if got then after + length open_s else after)\<rparr>) (nam \<noteq> [] \<and> got)))"
  by (simp add: caller_def name_here_eq match_here_eq Let_def)

text \<open>
  C6, as the code has it. \<^verbatim>\<open>caller(open)\<close> reports whether a non-empty run of identifier
  characters stands at the cursor with the \<^verbatim>\<open>open\<close> literal right after it, and it consumes:
  the state it returns is the given one moved past the identifier characters and, when the
  literal follows them, past the literal too. \<^verbatim>\<open>caller\<close> does not call \<^verbatim>\<open>dry\<close>; the given
  state comes back only from \<^verbatim>\<open>dry(caller(open))\<close>, which is how \<^verbatim>\<open>guard\<close> runs its head.
\<close>

theorem caller_consumes:
  "caller open_s s =
     (let nam = takeWhile is_name_char (drop (index s) (code s));
          after = index s + length nam;
          got = (take (length open_s) (drop after (code s)) = open_s)
      in Some (Return (s\<lparr>index := (if got then after + length open_s else after)\<rparr>) (nam \<noteq> [] \<and> got)))
   \<and> dry (caller open_s) s =
     (let nam = takeWhile is_name_char (drop (index s) (code s));
          after = index s + length nam;
          got = (take (length open_s) (drop after (code s)) = open_s)
      in Some (Return s (nam \<noteq> [] \<and> got)))"
proof
  show "caller open_s s =
     (let nam = takeWhile is_name_char (drop (index s) (code s));
          after = index s + length nam;
          got = (take (length open_s) (drop after (code s)) = open_s)
      in Some (Return (s\<lparr>index := (if got then after + length open_s else after)\<rparr>) (nam \<noteq> [] \<and> got)))"
    by (rule caller_eq)
  show "dry (caller open_s) s =
     (let nam = takeWhile is_name_char (drop (index s) (code s));
          after = index s + length nam;
          got = (take (length open_s) (drop after (code s)) = open_s)
      in Some (Return s (nam \<noteq> [] \<and> got)))"
    by (simp add: dry_def caller_eq Let_def)
qed

text \<open>
  C6 as stated fails: on the text \<^verbatim>\<open>f(x)\<close> at offset 0, \<^verbatim>\<open>caller("(")\<close> returns \<^verbatim>\<open>true\<close> with the
  cursor at offset 2, after the identifier and the parenthesis.
\<close>

theorem caller_consumes_counterexample:
  "caller ''('' \<lparr>code = ''f(x)'', index = 0\<rparr> = Some (Return \<lparr>code = ''f(x)'', index = 2\<rparr> True)"
  by code_simp

subsection \<open>Repetition\<close>

lemma on_return_ReturnE:
  assumes "on_return r k = Some (Return s' v)"
  obtains s a where "r = Some (Return s a)" and "k s a = Some (Return s' v)"
  using assms by (auto simp: on_return_def split: option.splits reply.splits)

lemma on_return_SomeD:
  "on_return r k = Some y \<Longrightarrow> \<exists>x. r = Some x"
  by (auto simp: on_return_def split: option.splits)

lemma until_steps_length: "until_steps delim parser n s as s' \<Longrightarrow> length as = n"
  by (induction rule: until_steps.induct) simp_all

lemma until_steps_returns:
  "until_steps delim parser n s as s' \<Longrightarrow> until delim parser s = Some (Return s' as)"
proof (induction rule: until_steps.induct)
  case (stop s s')
  then show ?case by (subst until.simps) simp
next
  case (step s s1 s2 a n as s')
  then show ?case by (subst until.simps) simp
qed

lemma until_returns_steps:
  assumes "until delim parser s = Some r"
  shows "\<forall>s' as. r = Return s' as \<longrightarrow> until_steps delim parser (length as) s as s'"
  using assms
proof (induction rule: until.raw_induct [rotated 1, consumes 1])
  case (1 until' delim parser state r)
  show ?case
  proof (intro allI impI)
    fix s' as
    assume r: "r = Return s' as"
    from "1"(2) [unfolded r] obtain s1 delimited
      where d: "delim state = Some (Return s1 delimited)"
        and k1: "(if delimited then Some (Return s1 [])
          else on_return (parser s1) (\<lambda>state a.
            on_return (until' delim parser state) (\<lambda>state b. Some (Return state ([a] @ b)))))
          = Some (Return s' as)"
      by (rule on_return_ReturnE)
    show "until_steps delim parser (length as) state as s'"
    proof (cases delimited)
      case True
      with k1 have "s' = s1" "as = []" by simp_all
      with d True show ?thesis by (simp add: until_steps.stop)
    next
      case False
      with k1 have "on_return (parser s1) (\<lambda>state a.
            on_return (until' delim parser state) (\<lambda>state b. Some (Return state ([a] @ b))))
          = Some (Return s' as)" by simp
      then obtain s2 a where p: "parser s1 = Some (Return s2 a)"
        and k2: "on_return (until' delim parser s2) (\<lambda>state b. Some (Return state ([a] @ b)))
          = Some (Return s' as)"
        by (rule on_return_ReturnE)
      from k2 obtain s3 b where u: "until' delim parser s2 = Some (Return s3 b)"
        and k3: "Some (Return s3 ([a] @ b)) = Some (Return s' as)"
        by (rule on_return_ReturnE)
      from k3 have eq: "s' = s3" "as = a # b" by simp_all
      from "1"(1) [OF u] have "until_steps delim parser (length b) s2 b s3" by simp
      with d False p have "until_steps delim parser (Suc (length b)) state (a # b) s3"
        by (simp add: until_steps.step)
      with eq show ?thesis by simp
    qed
  qed
qed

text \<open>
  A state that both the delimiter (reporting \<^verbatim>\<open>false\<close>) and the element parser return
  unchanged is one from which \<^verbatim>\<open>until\<close> does not return.
\<close>

lemma until_loops:
  assumes d: "delim s0 = Some (Return s0 False)" and p: "parser s0 = Some (Return s0 a)"
  shows "until delim parser s0 = None"
proof (rule ccontr)
  assume "until delim parser s0 \<noteq> None"
  then obtain r where r: "until delim parser s0 = Some r" by blast
  have "\<not> (delim s0 = Some (Return s0 False) \<and> (\<exists>a. parser s0 = Some (Return s0 a)))"
    using r
  proof (induction rule: until.raw_induct [rotated 1, consumes 1])
    case (1 until' delim parser state r)
    show ?case
    proof
      assume a: "delim state = Some (Return state False) \<and> (\<exists>a. parser state = Some (Return state a))"
      then obtain a where d: "delim state = Some (Return state False)"
        and p: "parser state = Some (Return state a)"
        by blast
      from "1"(2) d p
      have "on_return (until' delim parser state) (\<lambda>state b. Some (Return state ([a] @ b))) = Some r"
        by simp
      then obtain r' where "until' delim parser state = Some r'"
        using on_return_SomeD by blast
      from "1"(1) [OF this] a show False by blast
    qed
  qed
  with d p show False by blast
qed

text \<open>
  C7, as the code has it. \<^verbatim>\<open>until(delim, elem)\<close> returns exactly on the runs in which the
  delimiter, after reporting \<^verbatim>\<open>false\<close> before each of \<open>n\<close> returning element applications,
  reports \<^verbatim>\<open>true\<close>: it then returns the \<open>n\<close> element values in order, a sequence of length
  \<open>n\<close>, with the state the matching delimiter left; for \<open>n = 0\<close> this is the empty sequence and
  the delimiter's state. On such a run it does return; nothing makes every run such a run.
\<close>

theorem until_returns_elements:
  "(until_steps delim parser n s as s' \<longrightarrow> until delim parser s = Some (Return s' as) \<and> length as = n) \<and>
   (until delim parser s = Some (Return s' as) \<longrightarrow> until_steps delim parser (length as) s as s')"
proof (intro conjI impI)
  assume "until_steps delim parser n s as s'"
  then show "until delim parser s = Some (Return s' as)" by (rule until_steps_returns)
next
  assume "until_steps delim parser n s as s'"
  then show "length as = n" by (rule until_steps_length)
next
  assume "until delim parser s = Some (Return s' as)"
  from until_returns_steps [OF this] show "until_steps delim parser (length as) s as s'" by simp
qed

theorem until_returns_elements_witness:
  "until (match (Str '')'')) (bind name (\<lambda>val. bind (match (Str '','')) (\<lambda>skp. pure val)))
     \<lparr>code = ''a,b,c)'', index = 0\<rparr>
     = Some (Return \<lparr>code = ''a,b,c)'', index = 6\<rparr> [''a'', ''b'', ''c''])
   \<and> until_steps (match (Str '')'')) (bind name (\<lambda>val. bind (match (Str '','')) (\<lambda>skp. pure val)))
     3 \<lparr>code = ''a,b,c)'', index = 0\<rparr> [''a'', ''b'', ''c''] \<lparr>code = ''a,b,c)'', index = 6\<rparr>
   \<and> length [''a'', ''b'', ''c''] = (3::nat)"
proof -
  let ?d = "match (Str '')'')"
  let ?p = "bind name (\<lambda>val. bind (match (Str '','')) (\<lambda>skp. pure val))"
  let ?s = "\<lparr>code = ''a,b,c)'', index = 0\<rparr>"
  let ?s' = "\<lparr>code = ''a,b,c)'', index = 6\<rparr>"
  let ?as = "[''a'', ''b'', ''c'']"
  have u: "until ?d ?p ?s = Some (Return ?s' ?as)"
    by code_simp
  have l: "length ?as = 3"
    by simp
  have "until_steps ?d ?p (length ?as) ?s ?as ?s'"
    using until_returns_elements [of ?d ?p 3 ?s ?as ?s'] u by blast
  then have st: "until_steps ?d ?p 3 ?s ?as ?s'"
    by (simp only: l)
  have "until ?d ?p ?s = Some (Return ?s' ?as) \<and> length ?as = 3"
    using until_returns_elements [of ?d ?p 3 ?s ?as ?s'] st by blast
  with st show ?thesis by blast
qed

text \<open>
  C7 as stated fails: \<^verbatim>\<open>until(match(")"), name)\<close> on the empty text does not return. At the end
  of the text the delimiter does not match and \<^verbatim>\<open>name\<close> returns the empty name without
  moving, so each call makes the next one on the same state.
\<close>

theorem until_diverges_counterexample:
  "until (match (Str '')'')) name \<lparr>code = '''', index = 0\<rparr> = None"
proof (rule until_loops)
  show "match (Str '')'') \<lparr>code = '''', index = 0\<rparr> = Some (Return \<lparr>code = '''', index = 0\<rparr> False)"
    by code_simp
  show "name \<lparr>code = '''', index = 0\<rparr> = Some (Return \<lparr>code = '''', index = 0\<rparr> '''')"
    by code_simp
qed

lemma on_return_flag_ignored:
  "on_return (bind p (\<lambda>_. pure c) st) (\<lambda>state skp. k state) = on_return (p st) (\<lambda>state skp. k state)"
  by (auto simp: bind_def pure_def on_return_def split: option.splits reply.splits)

lemma list_flags:
  "list (bind open_p (\<lambda>_. pure b)) (bind sep (\<lambda>_. pure c)) close_p elem make' = list open_p sep close_p elem make'"
  unfolding list_def by (simp only: on_return_flag_ignored)

lemma list_without_opener_and_separator:
  "list (match (Str ''('')) (match (Str '','')) (match (Str '')'')) name id \<lparr>code = ''a b)'', index = 0\<rparr>
     = Some (Return \<lparr>code = ''a b)'', index = 4\<rparr> [''a'', ''b''])"
  by code_simp

lemma list_with_opener_and_separators:
  "list (match (Str ''('')) (match (Str '','')) (match (Str '')'')) name id \<lparr>code = ''(a,b,c)'', index = 0\<rparr>
     = Some (Return \<lparr>code = ''(a,b,c)'', index = 7\<rparr> [''a'', ''b'', ''c''])"
  by code_simp

lemma list_element_parser:
  "(\<lambda>state. on_return (elem state) (\<lambda>state val. on_return (sep state) (\<lambda>state skp. Some (Return state val))))
     = bind elem (\<lambda>val. bind sep (\<lambda>skp. pure val))"
  by (simp add: bind_def pure_def)

lemma list_eq:
  "list open_p sep close_p elem make' s =
     (case open_p s of
        None \<Rightarrow> None
      | Some (Throw e) \<Rightarrow> Some (Throw e)
      | Some (Return s1 skp) \<Rightarrow>
          (case until close_p (bind elem (\<lambda>val. bind sep (\<lambda>skp. pure val))) s1 of
             None \<Rightarrow> None
           | Some (Throw e) \<Rightarrow> Some (Throw e)
           | Some (Return s2 arr) \<Rightarrow> Some (Return s2 (make' arr))))"
  unfolding list_def list_element_parser
  by (simp add: on_return_def split: option.splits reply.splits)

lemma element_then_separator:
  "bind elem (\<lambda>val. bind sep (\<lambda>skp. pure val)) t =
     (case elem t of
        None \<Rightarrow> None
      | Some (Throw e) \<Rightarrow> Some (Throw e)
      | Some (Return t1 val) \<Rightarrow>
          (case sep t1 of
             None \<Rightarrow> None
           | Some (Throw e) \<Rightarrow> Some (Throw e)
           | Some (Return t2 skp) \<Rightarrow> Some (Return t2 val)))"
  by (simp add: bind_def pure_def on_return_def split: option.splits reply.splits)

text \<open>
  C10. For every state, \<^verbatim>\<open>list\<close> runs \<^verbatim>\<open>open\<close> first and goes on from the state \<^verbatim>\<open>open\<close> returned,
  whatever boolean came with it: a throw or a call of \<^verbatim>\<open>open\<close> that does not return is all that
  stops it there, and an opener that reports \<^verbatim>\<open>false\<close> does not. From that state it runs
  \<^verbatim>\<open>until\<close> with the closer and with the element parser followed by \<^verbatim>\<open>sep\<close>, and returns
  \<^verbatim>\<open>make\<close> of the sequence. The element step runs \<^verbatim>\<open>elem\<close>, then \<^verbatim>\<open>sep\<close> on the state \<^verbatim>\<open>elem\<close>
  returned, and returns the state of \<^verbatim>\<open>sep\<close> with the value of \<^verbatim>\<open>elem\<close>, whatever boolean \<^verbatim>\<open>sep\<close>
  reported. So replacing the boolean either of them reports by any constant leaves \<^verbatim>\<open>list\<close> the
  same parser. On \<^verbatim>\<open>a b)\<close>, with no opening parenthesis and no comma, the list of names between
  \<^verbatim>\<open>(\<close> and \<^verbatim>\<open>)\<close> separated by \<^verbatim>\<open>,\<close> returns both names; on \<^verbatim>\<open>(a,b,c)\<close> the parenthesis and the
  commas are consumed.
\<close>

theorem list_ignores_open_and_sep_results:
  "list open_p sep close_p elem make' s =
     (case open_p s of
        None \<Rightarrow> None
      | Some (Throw e) \<Rightarrow> Some (Throw e)
      | Some (Return s1 skp) \<Rightarrow>
          (case until close_p (bind elem (\<lambda>val. bind sep (\<lambda>skp. pure val))) s1 of
             None \<Rightarrow> None
           | Some (Throw e) \<Rightarrow> Some (Throw e)
           | Some (Return s2 arr) \<Rightarrow> Some (Return s2 (make' arr))))
   \<and> bind elem (\<lambda>val. bind sep (\<lambda>skp. pure val)) t =
     (case elem t of
        None \<Rightarrow> None
      | Some (Throw e) \<Rightarrow> Some (Throw e)
      | Some (Return t1 val) \<Rightarrow>
          (case sep t1 of
             None \<Rightarrow> None
           | Some (Throw e) \<Rightarrow> Some (Throw e)
           | Some (Return t2 skp) \<Rightarrow> Some (Return t2 val)))
   \<and> list (bind open_p (\<lambda>_. pure b)) (bind sep (\<lambda>_. pure c)) close_p elem make' = list open_p sep close_p elem make'
   \<and> list (match (Str ''('')) (match (Str '','')) (match (Str '')'')) name id \<lparr>code = ''a b)'', index = 0\<rparr>
     = Some (Return \<lparr>code = ''a b)'', index = 4\<rparr> [''a'', ''b''])
   \<and> list (match (Str ''('')) (match (Str '','')) (match (Str '')'')) name id \<lparr>code = ''(a,b,c)'', index = 0\<rparr>
     = Some (Return \<lparr>code = ''(a,b,c)'', index = 7\<rparr> [''a'', ''b'', ''c''])"
  by (intro conjI list_eq element_then_separator list_flags list_without_opener_and_separator
      list_with_opener_and_separators)

subsection \<open>Ordered choice\<close>

lemma grammar_Nil: "grammar truthy nm [] s = expected_type nm s"
  by (simp add: grammar_def)

lemma grammar_Cons:
  "grammar truthy nm (choice # choices) s =
     on_return (choice s) (\<lambda>s' got.
       case got of
         None \<Rightarrow> grammar truthy nm choices s'
       | Some a \<Rightarrow> if truthy a then Some (Return s' a) else grammar truthy nm choices s')"
  unfolding grammar_def by simp

lemma guard_miss:
  "skip s = Some (Return s1 b) \<Longrightarrow> head s1 = Some (Return s2 False) \<Longrightarrow>
   guard head body s = Some (Return s1 None)"
  by (simp add: guard_def dry_def)

lemma guard_hit:
  "skip s = Some (Return s1 b) \<Longrightarrow> head s1 = Some (Return s2 True) \<Longrightarrow>
   guard head body s = on_return (body s1) (\<lambda>s a. Some (Return s (Some a)))"
  by (simp add: guard_def dry_def)

text \<open>
  The scenario of the specification: of two alternatives whose heads match \<^verbatim>\<open>x\<close> and \<^verbatim>\<open>xy\<close>, on
  the text \<^verbatim>\<open>xy\<close> the first one is taken.
\<close>

lemma grammar_first_of_two:
  "grammar truthy_string ''G''
     [guard (match (Str ''x'')) (pure ''first''), guard (match (Str ''xy'')) (pure ''second'')]
     \<lparr>code = ''xy'', index = 0\<rparr>
   = Some (Return \<lparr>code = ''xy'', index = 0\<rparr> ''first'')"
  by code_simp

text \<open>
  C1, where the code departs from it. The first choice, \<^verbatim>\<open>guard(match(""), name)\<close>, applies on
  the text \<^verbatim>\<open>+\<close> and returns a result that is not \<^verbatim>\<open>null\<close>: the empty name. \<^verbatim>\<open>grammar\<close> does not
  return it. Its test \<^verbatim>\<open>if (got)\<close> takes the empty string for an absent result, and it goes on
  to the second choice and returns that one's value.
\<close>

theorem grammar_skips_empty_result:
  "guard (match (Str '''')) name \<lparr>code = ''+'', index = 0\<rparr>
     = Some (Return \<lparr>code = ''+'', index = 0\<rparr> (Some ''''))
   \<and> grammar truthy_string ''T'' [guard (match (Str '''')) name, guard (match (Str '''')) (pure ''other'')]
       \<lparr>code = ''+'', index = 0\<rparr>
     = Some (Return \<lparr>code = ''+'', index = 0\<rparr> ''other'')"
  by code_simp

subsection \<open>The unclosed node\<close>

lemma sbt_at_end:
  "sbt (Suc fuel) \<lparr>code = ''(a'', index = 2\<rparr> =
     Some (Throw (''Expected StrBinTree:\<newline>   0 | (a'' @ open_color @ [open_mark, close_mark]
       @ close_color @ [newline]))"
proof -
  let ?s = "\<lparr>code = ''(a'', index = 2\<rparr>"
  have sk: "skip ?s = Some (Return ?s False)" by code_simp
  have m1: "match (Str ''('') ?s = Some (Return ?s False)" by code_simp
  have m2: "match (Str '''') ?s = Some (Return ?s True)" by code_simp
  have nm: "bind name (\<lambda>x. pure (Leaf x)) ?s = Some (Return ?s (Leaf ''''))" by code_simp
  have ex: "(expected_type ''StrBinTree'' :: StrBinTree parser) ?s =
     Some (Throw (''Expected StrBinTree:\<newline>   0 | (a'' @ open_color @ [open_mark, close_mark]
       @ close_color @ [newline]))"
    by code_simp
  have t: "\<not> truthy_StrBinTree (Leaf '''')" by (simp add: truthy_string_def)
  show ?thesis
    apply (subst sbt.simps)
    apply (simp only: Let_def grammar_Cons grammar_Nil
        guard_miss [where head = "match (Str ''('')", OF sk m1]
        guard_hit [where head = "match (Str '''')", OF sk m2]
        nm ex on_return_simps option.case t if_False)
    done
qed

lemma sbt_at_name:
  "sbt (Suc fuel) \<lparr>code = ''(a'', index = 1\<rparr> = Some (Return \<lparr>code = ''(a'', index = 2\<rparr> (Leaf ''a''))"
proof -
  let ?s = "\<lparr>code = ''(a'', index = 1\<rparr>"
  have sk: "skip ?s = Some (Return ?s False)" by code_simp
  have m1: "match (Str ''('') ?s = Some (Return ?s False)" by code_simp
  have m2: "match (Str '''') ?s = Some (Return ?s True)" by code_simp
  have nm: "bind name (\<lambda>x. pure (Leaf x)) ?s = Some (Return \<lparr>code = ''(a'', index = 2\<rparr> (Leaf ''a''))"
    by code_simp
  have t: "truthy_StrBinTree (Leaf ''a'')" by (simp add: truthy_string_def)
  show ?thesis
    apply (subst sbt.simps)
    apply (simp only: Let_def grammar_Cons grammar_Nil
        guard_miss [where head = "match (Str ''('')", OF sk m1]
        guard_hit [where head = "match (Str '''')", OF sk m2]
        nm on_return_simps option.case t if_True)
    done
qed

text \<open>
  C8, where the code departs from it. On the text \<^verbatim>\<open>(a\<close>, with any fuel that lets the two nested
  calls run, \<^verbatim>\<open>sbt\<close> throws, and the span is at offset 2, the end of the text; but the message
  is "Expected StrBinTree", thrown by the inner \<^verbatim>\<open>grammar\<close> for the right subtree, and not
  "Expected ')'". At offset 2 the alternative for a name applies and returns the empty name;
  \<^verbatim>\<open>grammar\<close> takes the empty string for an absent result and finds no alternative left, so
  \<^verbatim>\<open>consume(")")\<close> is never reached. The text thrown is the message, a line feed, and the one
  retained line: number 0, the bar, \<^verbatim>\<open>(a\<close>, and the two markers in colour.
\<close>

theorem sbt_unclosed_node:
  "sbt (Suc (Suc fuel)) \<lparr>code = ''(a'', index = 0\<rparr> =
     Some (Throw (''Expected StrBinTree:\<newline>   0 | (a'' @ open_color @ [open_mark, close_mark]
       @ close_color @ [newline]))"
proof -
  let ?s = "\<lparr>code = ''(a'', index = 0\<rparr>"
  have sk: "skip ?s = Some (Return ?s False)" by code_simp
  have m1: "match (Str ''('') ?s = Some (Return \<lparr>code = ''(a'', index = 1\<rparr> True)" by code_simp
  have c1: "consume ''('' ?s = Some (Return \<lparr>code = ''(a'', index = 1\<rparr> ())" by code_simp
  have body: "bind (consume ''('') (\<lambda>_. bind (sbt (Suc fuel)) (\<lambda>lft. bind (sbt (Suc fuel)) (\<lambda>rgt.
      bind (consume '')'') (\<lambda>_. pure (Node lft rgt))))) ?s =
     Some (Throw (''Expected StrBinTree:\<newline>   0 | (a'' @ open_color @ [open_mark, close_mark]
       @ close_color @ [newline]))"
    by (simp only: bind_def c1 on_return_simps sbt_at_name sbt_at_end)
  show ?thesis
    apply (subst sbt.simps)
    apply (simp only: Let_def grammar_Cons guard_hit [where head = "match (Str ''('')", OF sk m1]
        body on_return_simps)
    done
qed

subsection \<open>The highlighted context\<close>

lemma highlight_loop_eq:
  "highlight_loop fl tln numb ls acc =
     acc @ concat (map (\<lambda>i. numbered_line fl tln (numb + i) (ls ! i)) [0..<length ls])"
proof (induction ls arbitrary: numb acc)
  case Nil
  then show ?case by simp
next
  case (Cons l ls)
  have "[0..<length (l # ls)] = 0 # map Suc [0..<length ls]"
    by (simp add: upt_conv_Cons map_Suc_upt del: upt_Suc)
  then have "map (\<lambda>i. numbered_line fl tln (numb + i) ((l # ls) ! i)) [0..<length (l # ls)]
      = numbered_line fl tln numb l # map (\<lambda>i. numbered_line fl tln (numb + 1 + i) (ls ! i)) [0..<length ls]"
    by (simp add: comp_def del: upt_Suc)
  with Cons [of "numb + 1" "acc @ numbered_line fl tln numb l"] show ?case by simp
qed

lemma shifted_upt: "map (\<lambda>i. a + i) [0..<b - a] = [a..<b]"
proof (cases "a \<le> b")
  case True
  have "map (\<lambda>i. a + i) [0..<b - a] = map (\<lambda>i. i + a) [0..<b - a]"
    by (simp add: add.commute)
  also have "\<dots> = [a..<b - a + a]" by (simp only: map_add_upt)
  finally show ?thesis using True by simp
next
  case False
  then show ?thesis by simp
qed

lemma retained_lines_eq:
  assumes "b \<le> length xs"
  shows "map (\<lambda>i. f (a + i) (take (b - a) (drop a xs) ! i)) [0..<length (take (b - a) (drop a xs))]
     = map (\<lambda>n. f n (xs ! n)) [a..<b]"
proof -
  have len: "length (take (b - a) (drop a xs)) = b - a"
    using assms by simp
  have "map (\<lambda>i. f (a + i) (take (b - a) (drop a xs) ! i)) [0..<b - a]
      = map (\<lambda>i. f (a + i) (xs ! (a + i))) [0..<b - a]"
    using assms by (intro map_cong refl) simp
  also have "\<dots> = map (\<lambda>n. f n (xs ! n)) (map (\<lambda>i. a + i) [0..<b - a])"
    by (simp add: comp_def)
  also have "map (\<lambda>i. a + i) [0..<b - a] = [a..<b]"
    by (rule shifted_upt)
  finally show ?thesis by (simp only: len)
qed

lemma highlight_eq:
  "highlight from_index to_index c =
     (let from_line = count_lines c from_index;
          to_line = count_lines c to_index;
          lines = split_lines (js_slice c 0 (int from_index) @ [open_mark]
            @ js_slice c (int from_index) (int to_index) @ [close_mark]
            @ js_slice_from c (int to_index));
          block_from_line = from_line - 3;
          block_to_line = min (to_line + 3) (length lines)
      in concat (map (\<lambda>n. numbered_line from_line to_line n (lines ! n)) [block_from_line..<block_to_line]))"
proof -
  define lines where "lines = split_lines (js_slice c 0 (int from_index) @ [open_mark]
            @ js_slice c (int from_index) (int to_index) @ [close_mark]
            @ js_slice_from c (int to_index))"
  define fl where "fl = count_lines c from_index"
  define tln where "tln = count_lines c to_index"
  have first: "nat (max (int fl - 3) 0) = fl - 3" by simp
  have "highlight from_index to_index c =
      highlight_loop fl tln (fl - 3)
        (take (min (tln + 3) (length lines) - (fl - 3)) (drop (fl - 3) lines)) []"
    unfolding highlight_def Let_def lines_def [symmetric] fl_def [symmetric] tln_def [symmetric] first
    by (rule refl)
  also have "\<dots> = concat (map (\<lambda>n. numbered_line fl tln n (lines ! n)) [fl - 3..<min (tln + 3) (length lines)])"
    unfolding highlight_loop_eq append_Nil
    by (rule arg_cong [where f = concat], rule retained_lines_eq) simp
  finally show ?thesis
    unfolding Let_def lines_def fl_def tln_def .
qed

lemma show_nat_length: "n < 10000 \<Longrightarrow> 1 \<le> length (show_nat n) \<and> length (show_nat n) \<le> 4"
proof -
  assume n: "n < 10000"
  have one: "length (show_nat k) = 1" if "k < 10" for k
    using that by (subst show_nat.simps) simp
  have two: "length (show_nat k) \<le> 2 \<and> 1 \<le> length (show_nat k)" if "k < 100" for k
    using that one [of "k div 10"] one [of k] by (subst (1 2) show_nat.simps) auto
  have three: "length (show_nat k) \<le> 3 \<and> 1 \<le> length (show_nat k)" if "k < 1000" for k
    using that two [of "k div 10"] one [of k] by (subst (1 2) show_nat.simps) auto
  have four: "length (show_nat k) \<le> 4 \<and> 1 \<le> length (show_nat k)" if "k < 10000" for k
    using that three [of "k div 10"] one [of k] by (subst (1 2) show_nat.simps) auto
  from four [OF n] show ?thesis by simp
qed

lemma show_nat_nonempty: "1 \<le> length (show_nat n)"
  by (subst show_nat.simps) simp

lemma number_field_length: "length (js_slice_from (''    '' @ show_nat n) (- 4)) = 4"
  using show_nat_nonempty [of n] by (simp add: js_slice_from_def js_clamp_def)

lemma number_field_right_aligned:
  assumes "n < 10000"
  shows "js_slice_from (''    '' @ show_nat n) (- 4) = replicate (4 - length (show_nat n)) CHR '' '' @ show_nat n"
proof -
  from show_nat_length [OF assms] have l: "1 \<le> length (show_nat n)" "length (show_nat n) \<le> 4" by simp_all
  have "''    '' = replicate (length (show_nat n)) CHR '' '' @ replicate (4 - length (show_nat n)) CHR '' ''"
    using l by (simp add: replicate_add [symmetric] eval_nat_numeral)
  then have "''    '' @ show_nat n = replicate (length (show_nat n)) CHR '' '' @ (replicate (4 - length (show_nat n)) CHR '' '' @ show_nat n)"
    by simp
  moreover have "js_clamp (length (''    '' @ show_nat n)) (- 4) = length (show_nat n)"
    by (simp add: js_clamp_def)
  ultimately show ?thesis
    by (simp add: js_slice_from_def del: replicate_Suc)
qed

lemma show_nat_step: "10 \<le> n \<Longrightarrow> length (show_nat n) = length (show_nat (n div 10)) + 1"
  by (subst show_nat.simps) simp

lemma show_nat_long: "1000 \<le> n \<Longrightarrow> 4 \<le> length (show_nat n)"
proof -
  assume n: "1000 \<le> n"
  have "1 \<le> length (show_nat (n div 10 div 10 div 10))" by (rule show_nat_nonempty)
  moreover have "length (show_nat (n div 10 div 10)) = length (show_nat (n div 10 div 10 div 10)) + 1"
    using n by (intro show_nat_step) simp
  moreover have "length (show_nat (n div 10)) = length (show_nat (n div 10 div 10)) + 1"
    using n by (intro show_nat_step) simp
  moreover have "length (show_nat n) = length (show_nat (n div 10)) + 1"
    using n by (intro show_nat_step) simp
  ultimately show ?thesis by simp
qed

lemma last_four_of_long:
  assumes "length xs = 4" and "4 \<le> length d"
  shows "js_slice_from (xs @ d) (- 4) = drop (length d - 4) d"
proof -
  have "js_clamp (length (xs @ d)) (- 4) = length d"
    using assms by (simp add: js_clamp_def)
  then show ?thesis
    using assms by (simp add: js_slice_from_def)
qed

lemma number_field_truncated:
  assumes "1000 \<le> n"
  shows "js_slice_from (''    '' @ show_nat n) (- 4) = drop (length (show_nat n) - 4) (show_nat n)"
  by (rule last_four_of_long) (simp_all add: show_nat_long [OF assms])

lemma number_field_cases:
  "js_slice_from (''    '' @ show_nat n) (- 4) =
     (if n < 10000 then replicate (4 - length (show_nat n)) CHR '' '' @ show_nat n
      else drop (length (show_nat n) - 4) (show_nat n))"
proof (cases "n < 10000")
  case True
  then show ?thesis by (simp only: number_field_right_aligned if_True)
next
  case False
  then have "1000 \<le> n" by simp
  from number_field_truncated [OF this] False show ?thesis by (simp only: if_False)
qed

text \<open>
  For a span inside the text, the marked text is the text with the opening marker put in at
  \<open>from_index\<close> and the closing marker at \<open>to_index\<close>.
\<close>

lemma marked_text:
  assumes "from_index \<le> to_index" and "to_index \<le> length c"
  shows "js_slice c 0 (int from_index) @ [open_mark]
         @ js_slice c (int from_index) (int to_index) @ [close_mark]
         @ js_slice_from c (int to_index)
       = take from_index c @ [open_mark] @ take (to_index - from_index) (drop from_index c)
         @ [close_mark] @ drop to_index c"
  using assms by (simp add: js_slice_def js_slice_from_def js_clamp_def)

lemma window_bounds:
  "n \<in> set [from_line - 3..<min (to_line + 3) k] \<Longrightarrow> from_line \<le> n + 3 \<and> n \<le> to_line + 3 \<and> n < k"
  by auto

text \<open>
  The last line \<^verbatim>\<open>highlight\<close> retains is the second one after the last line of the span: the
  end of \<^verbatim>\<open>lines.slice(block_from_line, block_to_line)\<close> is exclusive.
\<close>

lemma highlight_window:
  "set [from_line - 3..<min (to_line + 3) k] = {n. from_line \<le> n + 3 \<and> n \<le> to_line + 2 \<and> n < k}"
  by auto

text \<open>
  C9, as the code has it. With \<open>from_line\<close> and \<open>to_line\<close> the numbers of the lines (counted
  from 0) that hold the two ends of the span, and \<open>lines\<close> the lines of the text with the two
  markers put in, the text \<^verbatim>\<open>highlight\<close> returns is made of one piece for each line number \<open>n\<close>
  from \<open>from_line - 3\<close> (or 0) up to, and without, the smaller of \<open>to_line + 3\<close> and the number of
  lines, in this order. Each \<open>n\<close> of them is no more than 3 lines before \<open>from_line\<close> and no more
  than 3 lines after \<open>to_line\<close>. Each piece starts with a field of exactly four characters, then
  the bar, then the line \<open>n\<close> with its colouring. The field holds the decimal number \<open>n\<close>:
  right-aligned after spaces when \<open>n\<close> is below 10000, and cut to its last four digits from
  10000 on, since \<^verbatim>\<open>("    "+numb).slice(-4)\<close> keeps four characters whatever the number.
\<close>

theorem highlight_context_and_numbers:
  "let from_line = count_lines c from_index;
       to_line = count_lines c to_index;
       lines = split_lines (js_slice c 0 (int from_index) @ [open_mark]
         @ js_slice c (int from_index) (int to_index) @ [close_mark]
         @ js_slice_from c (int to_index));
       block_from_line = from_line - 3;
       block_to_line = min (to_line + 3) (length lines)
   in highlight from_index to_index c =
        concat (map (\<lambda>n. js_slice_from (''    '' @ show_nat n) (- 4) @ '' | ''
                            @ color_line from_line to_line n (lines ! n @ [newline]))
                 [block_from_line..<block_to_line])
      \<and> (\<forall>n \<in> set [block_from_line..<block_to_line].
            from_line \<le> n + 3 \<and> n \<le> to_line + 3 \<and> n < length lines
            \<and> length (js_slice_from (''    '' @ show_nat n) (- 4)) = 4
            \<and> js_slice_from (''    '' @ show_nat n) (- 4) =
                 (if n < 10000 then replicate (4 - length (show_nat n)) CHR '' '' @ show_nat n
                  else drop (length (show_nat n) - 4) (show_nat n)))"
  unfolding Let_def
proof (intro conjI ballI)
  fix n
  assume n: "n \<in> set [count_lines c from_index - 3..<min (count_lines c to_index + 3)
      (length (split_lines (js_slice c 0 (int from_index) @ [open_mark]
         @ js_slice c (int from_index) (int to_index) @ [close_mark]
         @ js_slice_from c (int to_index))))]"
  from window_bounds [OF n] show "count_lines c from_index \<le> n + 3" by (rule conjunct1)
  from window_bounds [OF n] show "n \<le> count_lines c to_index + 3" by simp
  from window_bounds [OF n] show "n < length (split_lines (js_slice c 0 (int from_index) @ [open_mark]
         @ js_slice c (int from_index) (int to_index) @ [close_mark]
         @ js_slice_from c (int to_index)))" by simp
  show "length (js_slice_from (''    '' @ show_nat n) (- 4)) = 4" by (rule number_field_length)
  show "js_slice_from (''    '' @ show_nat n) (- 4) =
      (if n < 10000 then replicate (4 - length (show_nat n)) CHR '' '' @ show_nat n
       else drop (length (show_nat n) - 4) (show_nat n))"
    by (rule number_field_cases)
next
  show "highlight from_index to_index c =
    concat (map (\<lambda>n. js_slice_from (''    '' @ show_nat n) (- 4) @ '' | ''
         @ color_line (count_lines c from_index) (count_lines c to_index) n
             (split_lines (js_slice c 0 (int from_index) @ [open_mark]
               @ js_slice c (int from_index) (int to_index) @ [close_mark]
               @ js_slice_from c (int to_index)) ! n @ [newline]))
      [count_lines c from_index - 3..<min (count_lines c to_index + 3)
        (length (split_lines (js_slice c 0 (int from_index) @ [open_mark]
         @ js_slice c (int from_index) (int to_index) @ [close_mark]
         @ js_slice_from c (int to_index))))])"
    by (simp only: highlight_eq Let_def numbered_line_def)
qed

theorem highlight_context_and_numbers_witness:
  "5 \<in> set [(2::nat)..<8]
   \<and> highlight 10 11 ''a\<newline>b\<newline>c\<newline>d\<newline>e\<newline>f\<newline>g\<newline>h\<newline>i\<newline>j''
     = ''   2 | c\<newline>   3 | d\<newline>   4 | e\<newline>   5 | '' @ open_color @ [open_mark] @ ''f'' @ [close_mark]
         @ close_color @ ''\<newline>   6 | g\<newline>   7 | h\<newline>''
   \<and> js_slice_from (''    '' @ show_nat 5) (- 4) = ''   5''"
proof -
  let ?c = "''a\<newline>b\<newline>c\<newline>d\<newline>e\<newline>f\<newline>g\<newline>h\<newline>i\<newline>j''"
  have fl: "count_lines ?c 10 = 5" by code_simp
  have tl: "count_lines ?c 11 = 5" by code_simp
  have ls: "length (split_lines (js_slice ?c 0 (int 10) @ [open_mark]
         @ js_slice ?c (int 10) (int 11) @ [close_mark] @ js_slice_from ?c (int 11))) = 10"
    by code_simp
  have w: "[(5::nat) - 3..<min (5 + 3) 10] = [2..<8]" by simp
  have m: "(5::nat) \<in> set [2..<8]" by simp
  have s5: "show_nat 5 = ''5''" by code_simp
  have h: "highlight 10 11 ?c
     = ''   2 | c\<newline>   3 | d\<newline>   4 | e\<newline>   5 | '' @ open_color @ [open_mark] @ ''f'' @ [close_mark]
         @ close_color @ ''\<newline>   6 | g\<newline>   7 | h\<newline>''"
    by code_simp
  from highlight_context_and_numbers [of ?c 10 11]
  have "\<forall>n \<in> set [(2::nat)..<8].
      js_slice_from (''    '' @ show_nat n) (- 4) =
        (if n < 10000 then replicate (4 - length (show_nat n)) CHR '' '' @ show_nat n
         else drop (length (show_nat n) - 4) (show_nat n))"
    unfolding Let_def fl tl ls w by blast
  with m have "js_slice_from (''    '' @ show_nat 5) (- 4) =
      (if (5::nat) < 10000 then replicate (4 - length (show_nat 5)) CHR '' '' @ show_nat 5
       else drop (length (show_nat 5) - 4) (show_nat 5))"
    by (rule bspec [rotated])
  then have "js_slice_from (''    '' @ show_nat 5) (- 4) = ''   5''"
    unfolding s5 by (simp add: eval_nat_numeral)
  with m h show ?thesis by blast
qed

lemma digit_chars:
  "digit_char 0 = CHR ''0''" "digit_char 1 = CHR ''1''" "digit_char 7 = CHR ''7''"
  "digit_char 8 = CHR ''8''" "digit_char 9 = CHR ''9''" "digit_char (Suc 0) = CHR ''1''"
  by code_simp+

lemma number_fields_near_10000:
  "js_slice_from (''    '' @ show_nat 9997) (- 4) = ''9997''"
  "js_slice_from (''    '' @ show_nat 9998) (- 4) = ''9998''"
  "js_slice_from (''    '' @ show_nat 9999) (- 4) = ''9999''"
  "js_slice_from (''    '' @ show_nat 10000) (- 4) = ''0000''"
  by (simp_all add: show_nat.simps digit_chars js_slice_from_def js_clamp_def)

lemma color_line_before_span: "k < n \<Longrightarrow> color_line n n k l = l"
  by (simp add: color_line_def)

lemma color_line_marks:
  "color_line n n n ([open_mark, close_mark] @ [newline]) = open_color @ [open_mark, close_mark] @ close_color @ [newline]"
  by (simp add: color_line_def open_mark_def close_mark_def newline_def js_slice_def js_slice_from_def js_clamp_def)

lemma count_lines_line_feeds: "k \<le> n \<Longrightarrow> count_lines (replicate n newline) k = k"
  by (induction k) (simp_all add: char_at_def)

lemma split_lines_line_feeds: "split_lines (replicate n newline @ xs) = replicate n [] @ split_lines xs"
  by (induction n) simp_all

lemma split_lines_marks: "split_lines [open_mark, close_mark] = [[open_mark, close_mark]]"
  by code_simp

lemma highlight_of_line_feeds:
  "highlight n n (replicate n newline) =
     concat (map (\<lambda>k. numbered_line n n k ((replicate n [] @ [[open_mark, close_mark]]) ! k)) [n - 3..<n + 1])"
proof -
  have c: "js_slice (replicate n newline) 0 (int n) @ [open_mark]
      @ js_slice (replicate n newline) (int n) (int n) @ [close_mark]
      @ js_slice_from (replicate n newline) (int n)
    = replicate n newline @ [open_mark, close_mark]"
    by (simp add: js_slice_def js_slice_from_def js_clamp_def)
  have l: "split_lines (replicate n newline @ [open_mark, close_mark]) = replicate n [] @ [[open_mark, close_mark]]"
    by (simp only: split_lines_line_feeds split_lines_marks)
  have k: "count_lines (replicate n newline) n = n"
    by (rule count_lines_line_feeds) simp
  have m: "min (n + 3) (length (replicate n ([]::string) @ [[open_mark, close_mark]])) = n + 1"
    by simp
  show ?thesis
    by (simp only: highlight_eq Let_def c l k m)
qed

text \<open>
  C9 as stated fails: in a text of 10000 line feeds with the span at its end, on line 10000,
  the retained lines are 9997 to 10000 and the last one is prefixed with \<^verbatim>\<open>0000\<close>, which is not
  its line number.
\<close>

theorem highlight_line_10000_counterexample:
  "highlight 10000 10000 (replicate 10000 newline) =
     ''9997 | \<newline>9998 | \<newline>9999 | \<newline>0000 | '' @ open_color @ [open_mark, close_mark] @ close_color @ [newline]"
proof -
  have u: "[(10000::nat) - 3..<10000 + 1] = [9997, 9998, 9999, 10000]"
    by (simp add: upt_conv_Cons)
  have n1: "(replicate 10000 ([]::string) @ [[open_mark, close_mark]]) ! 9997 = []"
    and n2: "(replicate 10000 ([]::string) @ [[open_mark, close_mark]]) ! 9998 = []"
    and n3: "(replicate 10000 ([]::string) @ [[open_mark, close_mark]]) ! 9999 = []"
    and n4: "(replicate 10000 ([]::string) @ [[open_mark, close_mark]]) ! 10000 = [open_mark, close_mark]"
    by (simp_all add: nth_append)
  have c1: "color_line 10000 10000 9997 ([] @ [newline]) = [] @ [newline]"
    and c2: "color_line 10000 10000 9998 ([] @ [newline]) = [] @ [newline]"
    and c3: "color_line 10000 10000 9999 ([] @ [newline]) = [] @ [newline]"
    by (rule color_line_before_span, simp)+
  have l1: "numbered_line 10000 10000 9997 [] = ''9997'' @ '' | '' @ [] @ [newline]"
    and l2: "numbered_line 10000 10000 9998 [] = ''9998'' @ '' | '' @ [] @ [newline]"
    and l3: "numbered_line 10000 10000 9999 [] = ''9999'' @ '' | '' @ [] @ [newline]"
    by (simp_all only: numbered_line_def number_fields_near_10000 c1 c2 c3)
  have l4: "numbered_line 10000 10000 10000 [open_mark, close_mark] =
      ''0000'' @ '' | '' @ open_color @ [open_mark, close_mark] @ close_color @ [newline]"
    by (simp only: numbered_line_def number_fields_near_10000 color_line_marks)
  have "highlight 10000 10000 (replicate 10000 newline) =
      concat [''9997'' @ '' | '' @ [] @ [newline], ''9998'' @ '' | '' @ [] @ [newline],
        ''9999'' @ '' | '' @ [] @ [newline],
        ''0000'' @ '' | '' @ open_color @ [open_mark, close_mark] @ close_color @ [newline]]"
    by (simp only: highlight_of_line_feeds u list.map n1 n2 n3 n4 l1 l2 l3 l4)
  then show ?thesis by (simp add: newline_def)
qed

end
